theory Spec2Isabelle
  imports Main "HOL-Library.Multiset"
begin

chapter \<open>turbo-export-engine: the chunked export core\<close>

text \<open>
  A shallow embedding of the Go core of the export engine: the CSV writer
  (\<^verbatim>\<open>internal/csv/writer.go\<close>), the XLSX builder (package \<^verbatim>\<open>xlsx\<close>), the
  split+zip partitioner (package \<^verbatim>\<open>splitzip\<close>) and the worker pool
  (\<^verbatim>\<open>internal/worker/pool.go\<close>).

  Conventions of the model.
  \<^item> Go strings and byte slices are \<^typ>\<open>string\<close> (lists of bytes).
  \<^item> Row counts, loop indices and row numbers are \<^typ>\<open>nat\<close>: they are lengths of
    slices or sums bounded by twice such a length, so no addition on them leaves the range of
    Go's \<^verbatim>\<open>int\<close>. The configuration fields \<^verbatim>\<open>Workers\<close> and \<^verbatim>\<open>ChunkSize\<close> are
    \<^typ>\<open>int\<close>; the one computation on them that can overflow (the part count of the
    partitioner) is written with the 64-bit wrap-around.
  \<^item> A call either returns, panics or never returns: type \<open>outcome\<close>.
  \<^item> Goroutines finish in an order the program does not control. Each parallel function
    takes a schedule that fixes this order; theorems quantify over all schedules.
\<close>

section \<open>Library functions\<close>

subsection \<open>Decimal formatting: the verb \<^verbatim>\<open>%d\<close>\<close>

function digits10 :: "nat \<Rightarrow> string" where
  "digits10 n = (if n < 10 then [char_of (48 + n)]
                 else digits10 (n div 10) @ [char_of (48 + n mod 10)])"
  by pat_completeness auto
termination
  by (relation "measure id") auto

declare digits10.simps [simp del]

definition fmt_d :: "nat \<Rightarrow> string" where
  "fmt_d n = digits10 n"

subsection \<open>\<^verbatim>\<open>html.EscapeString\<close>\<close>

text \<open>
  Go's standard library replaces five characters:
  \<^verbatim>\<open>strings.NewReplacer(`&`, "&amp;", `'`, "&#39;", `<`, "&lt;", `>`, "&gt;", `"`, "&#34;")\<close>.
\<close>

definition escapeChar :: "char \<Rightarrow> string" where
  "escapeChar c =
     (if c = CHR ''&'' then ''&amp;''
      else if c = CHR 0x27 then ''&#39;''
      else if c = CHR ''<'' then ''&lt;''
      else if c = CHR ''>'' then ''&gt;''
      else if c = CHR 0x22 then ''&#34;''
      else [c])"

definition EscapeString :: "string \<Rightarrow> string" where
  "EscapeString s = concat (map escapeChar s)"

section \<open>Outcomes and errors\<close>

datatype error =
    CreateOutputFailed
  | SplitZipDisabled
  | UnsupportedFormat string
  | PartError nat error
  | WritePartFailed nat error

datatype 'a outcome = Returns 'a | Panics | Hangs

section \<open>The chunker\<close>

text \<open>
  \<^verbatim>\<open>for i := 0; i < len(rows); i += chunkSize { end := i + chunkSize; if end > len(rows)
  { end = len(rows) }; chunks = append(chunks, rows[i:end]) }\<close>.
  The slice \<^verbatim>\<open>rows[i:end]\<close> is in range by the loop condition and the clamp. With
  \<^verbatim>\<open>chunkSize = 0\<close> the loop never ends on a non-empty input: the result \<open>None\<close>.
\<close>

definition slice :: "'a list \<Rightarrow> nat \<Rightarrow> nat \<Rightarrow> 'a list" where
  "slice xs a b = take (b - a) (drop a xs)"

partial_function (option) splitLoop ::
  "'a list \<Rightarrow> nat \<Rightarrow> nat \<Rightarrow> 'a list list \<Rightarrow> 'a list list option" where
  "splitLoop rows chunkSize i chunks =
     (if i < length rows
      then splitLoop rows chunkSize (i + chunkSize)
             (chunks @ [slice rows i (if i + chunkSize > length rows then length rows
                                      else i + chunkSize)])
      else Some chunks)"

declare splitLoop.simps [code]

definition splitIntoChunks :: "'a list \<Rightarrow> nat \<Rightarrow> 'a list list option" where
  "splitIntoChunks rows chunkSize = splitLoop rows chunkSize 0 []"

section \<open>The XLSX builder: rows and columns\<close>

text \<open>
  \<^verbatim>\<open>col++; for col > 0 { col--; name = string(rune('A'+(col%26))) + name; col /= 26 }\<close>.
  The loop variable is the argument of \<open>columnLoop\<close>, the decrement is written \<open>col - 1\<close>.
\<close>

function columnLoop :: "nat \<Rightarrow> string \<Rightarrow> string" where
  "columnLoop col name =
     (if col > 0
      then columnLoop ((col - 1) div 26) (char_of (65 + (col - 1) mod 26) # name)
      else name)"
  by pat_completeness auto
termination
  by (relation "measure fst") auto

declare columnLoop.simps [simp del]

definition columnName :: "nat \<Rightarrow> string" where
  "columnName col = columnLoop (col + 1) []"

text \<open>The spec's wording of the same numbering, digit by digit, most significant first.\<close>

function spec_letters :: "nat \<Rightarrow> string" where
  "spec_letters c' =
     (if c' = 0 then []
      else spec_letters ((c' - 1) div 26) @ [char_of (65 + (c' - 1) mod 26)])"
  by pat_completeness auto
termination
  by (relation "measure id") auto

declare spec_letters.simps [simp del]

text \<open>The value of a letter string in bijective base 26 (\<open>A\<close> is 1, \<open>Z\<close> is 26).\<close>

definition letters_value :: "string \<Rightarrow> nat" where
  "letters_value s = foldl (\<lambda>acc c. acc * 26 + (of_char c - 64)) 0 s"

definition cellXML :: "nat \<Rightarrow> nat \<Rightarrow> string \<Rightarrow> string" where
  \<open>cellXML rowNum colIdx cellValue =
     ''<c r="'' @ (columnName colIdx @ fmt_d rowNum) @ ''" t="inlineStr"><is><t>''
       @ EscapeString cellValue @ ''</t></is></c>''\<close>

definition buildRowXML :: "nat \<Rightarrow> string list \<Rightarrow> string" where
  \<open>buildRowXML rowNum cells =
     ''    <row r="'' @ fmt_d rowNum @ ''">''
       @ concat (map (\<lambda>(colIdx, cellValue). cellXML rowNum colIdx cellValue) (enumerate 0 cells))
       @ ''</row>\<newline>''\<close>

section \<open>Data model and environment\<close>

text \<open>
  \<^verbatim>\<open>type ExportMode string\<close>, \<^verbatim>\<open>type ExportFormat string\<close> and the two
  configuration structs, as \<^verbatim>\<open>README.md\<close> declares them. The fields of
  \<^verbatim>\<open>SplitZipConfig\<close> carry the prefix \<open>SZ\<close> where the name is taken.
\<close>

type_synonym ExportMode = string
type_synonym ExportFormat = string

definition ModeSync :: ExportMode where "ModeSync = ''sync''"
definition ModeParallel :: ExportMode where "ModeParallel = ''parallel''"
definition ModeGlobalPool :: ExportMode where "ModeGlobalPool = ''global_pool''"
definition FormatCSV :: ExportFormat where "FormatCSV = ''csv''"
definition FormatXLSX :: ExportFormat where "FormatXLSX = ''xlsx''"

record ExportConfig =
  Mode :: ExportMode
  Format :: ExportFormat
  Workers :: int
  ChunkSize :: int
  InputPath :: string
  OutputPath :: string

record SplitZipConfig =
  Split :: bool
  Zip :: bool
  SZChunkSize :: int
  SZFormat :: ExportFormat
  SZMode :: ExportMode
  SZWorkers :: int
  IncludeHeaders :: bool
  SZOutputPath :: string

record SplitZipResult =
  ROutputPath :: string
  TotalParts :: int
  TotalRows :: int
  PartFiles :: "string list"

text \<open>
  Modelled from the spec: the values a cell of \<^verbatim>\<open>type Row []interface{}\<close> holds are the
  four scalars of the spec's data model (text, number, boolean, absent). The number type is
  a parameter; the environment formats it.
\<close>

datatype 'n cell = Text string | Number 'n | Boolean bool | Nil

type_synonym 'n Row = "'n cell list"

text \<open>
  The environment of a call: what the Go libraries and the file system do.
  \<^item> \<open>fmt_num\<close>: the text \<^verbatim>\<open>%v\<close> gives a number;
  \<^item> \<open>csv_record\<close>: the bytes \<^verbatim>\<open>csv.Writer.Write\<close> emits for one record;
  \<^item> \<open>zip_bytes\<close>: the bytes of a zip archive with the given entries, in order;
  \<^item> \<open>can_create\<close>: whether \<^verbatim>\<open>os.Create\<close> succeeds on a path.
  Writes into an open file, buffer or zip entry succeed.
\<close>

record 'n lib =
  fmt_num :: "'n \<Rightarrow> string"
  csv_record :: "string list \<Rightarrow> string"
  zip_bytes :: "(string \<times> string) list \<Rightarrow> string"
  can_create :: "string \<Rightarrow> bool"

text \<open>\<^verbatim>\<open>fmt.Sprintf("%v", cell)\<close>: a nil interface value prints as \<^verbatim>\<open><nil>\<close>.\<close>

fun sprintf_v :: "('n \<Rightarrow> string) \<Rightarrow> 'n cell \<Rightarrow> string" where
  "sprintf_v num (Text s) = s"
| "sprintf_v num (Number x) = num x"
| "sprintf_v num (Boolean b) = (if b then ''true'' else ''false'')"
| "sprintf_v num Nil = ''<nil>''"

text \<open>
  A call returns what it wrote (\<open>None\<close> when the output file was not created) and its
  result.
\<close>

type_synonym ('s, 'r) effect = "('s option \<times> (error + 'r)) outcome"

section \<open>Goroutines and channels\<close>

text \<open>
  The parallel functions start one goroutine per chunk and read what the goroutines send.
  \<open>arrival_order sched xs\<close> is the order in which the goroutines dispatched in the order
  \<open>xs\<close> reach their send: at each step the schedule picks one of those still running.
\<close>

function arrival_order :: "nat list \<Rightarrow> 'a list \<Rightarrow> 'a list" where
  "arrival_order sched [] = []"
| "arrival_order [] (x # xs) = x # xs"
| "arrival_order (k # sched) (x # xs) =
     (let j = k mod length (x # xs)
      in (x # xs) ! j # arrival_order sched (take j (x # xs) @ drop (Suc j) (x # xs)))"
  by pat_completeness auto
termination
  by (relation "measure (\<lambda>(sched, xs). length xs)") auto

text \<open>
  Each goroutine sends its result on \<^verbatim>\<open>resultChan\<close> (capacity: the number of chunks, so the
  send never waits) or its error on \<^verbatim>\<open>errChan\<close> (capacity \<open>cap\<close>). Nothing receives from
  \<^verbatim>\<open>errChan\<close> before both channels are closed, and they are closed only after every
  goroutine has finished: a send on the full \<^verbatim>\<open>errChan\<close> waits forever, \<^verbatim>\<open>wg.Wait()\<close>
  never returns and the caller stays in \<^verbatim>\<open>for result := range resultChan\<close>. That is the
  result \<open>None\<close>.
\<close>

fun deliver :: "nat \<Rightarrow> (error + 'r) list \<Rightarrow> 'r list \<times> error list \<Rightarrow> ('r list \<times> error list) option" where
  "deliver cap [] (rs, es) = Some (rs, es)"
| "deliver cap (Inr r # xs) (rs, es) = deliver cap xs (rs @ [r], es)"
| "deliver cap (Inl e # xs) (rs, es) =
     (if length es < cap then deliver cap xs (rs, es @ [e]) else None)"

text \<open>
  \<^verbatim>\<open>for result := range resultChan { results[result.Index] = result }\<close>; an index out of
  range panics (\<open>None\<close>).
\<close>

fun collect :: "('r \<Rightarrow> nat) \<Rightarrow> 'r list \<Rightarrow> 'r list \<Rightarrow> 'r list option" where
  "collect index [] results = Some results"
| "collect index (result # rest) results =
     (if index result < length results
      then collect index rest (results[index result := result])
      else None)"

section \<open>The CSV writer\<close>

record processedChunk =
  Index :: nat
  Records :: "string list list"

definition WriteSync :: "'n lib \<Rightarrow> ExportConfig \<Rightarrow> string list \<Rightarrow> 'n Row list \<Rightarrow> (string, unit) effect" where
  "WriteSync E w headers rows =
     (if \<not> can_create E (OutputPath w) then Returns (None, Inl CreateOutputFailed)
      else
        let out = (if length headers > 0 then csv_record E headers else []);
            out = foldl (\<lambda>out row. out @ csv_record E (map (sprintf_v (fmt_num E)) row)) out rows
        in Returns (Some out, Inr ()))"

definition processChunk :: "'n lib \<Rightarrow> nat \<Rightarrow> 'n Row list \<Rightarrow> error + processedChunk" where
  "processChunk E index rows =
     Inr \<lparr>Index = index, Records = map (\<lambda>row. map (sprintf_v (fmt_num E)) row) rows\<rparr>"

definition WriteParallel ::
  "'n lib \<Rightarrow> ExportConfig \<Rightarrow> nat list \<Rightarrow> string list \<Rightarrow> 'n Row list \<Rightarrow> (string, unit) effect" where
  "WriteParallel E w sched headers rows =
     (let chunkSize = (if ChunkSize w \<le> 0 then 10000 else ChunkSize w);
          workers = (if Workers w \<le> 0 then 4 else Workers w)
      in
        if \<not> can_create E (OutputPath w) then Returns (None, Inl CreateOutputFailed)
        else
          let out = (if length headers > 0 then csv_record E headers else [])
          in
            case splitIntoChunks rows (nat chunkSize) of
              None \<Rightarrow> Hangs
            | Some chunks \<Rightarrow>
                (case deliver (nat workers)
                        (arrival_order sched
                           (map (\<lambda>(idx, chunk). processChunk E idx chunk) (enumerate 0 chunks)))
                        ([], []) of
                   None \<Rightarrow> Hangs
                 | Some (arrived, errs) \<Rightarrow>
                     (case collect Index arrived
                             (replicate (length chunks) \<lparr>Index = 0, Records = []\<rparr>) of
                        None \<Rightarrow> Panics
                      | Some results \<Rightarrow>
                          (case errs of
                             err # _ \<Rightarrow> Returns (Some out, Inl err)
                           | [] \<Rightarrow>
                               Returns
                                 (Some (foldl (\<lambda>out result.
                                          foldl (\<lambda>out record. out @ csv_record E record) out
                                            (Records result)) out results),
                                  Inr ())))))"

definition Write ::
  "'n lib \<Rightarrow> ExportConfig \<Rightarrow> nat list \<Rightarrow> string list \<Rightarrow> 'n Row list \<Rightarrow> (string, unit) effect" where
  "Write E w sched headers rows =
     (if Mode w = ModeSync then WriteSync E w headers rows
      else WriteParallel E w sched headers rows)"

section \<open>The XLSX builder\<close>

text \<open>The four fixed parts of the container and the frame of the worksheet part.\<close>

definition contentTypesXML :: string where
  \<open>contentTypesXML =
     ''<?xml version="1.0" encoding="UTF-8" standalone="yes"?>\<newline>''
     @ ''<Types xmlns="http://schemas.openxmlformats.org/package/2006/content-types">\<newline>''
     @ ''  <Default Extension="rels" ContentType="application/vnd.openxmlformats-package.relationships+xml"/>\<newline>''
     @ ''  <Default Extension="xml" ContentType="application/xml"/>\<newline>''
     @ ''  <Override PartName="/xl/workbook.xml" ContentType="application/vnd.openxmlformats-officedocument.spreadsheetml.sheet.main+xml"/>\<newline>''
     @ ''  <Override PartName="/xl/worksheets/sheet1.xml" ContentType="application/vnd.openxmlformats-officedocument.spreadsheetml.worksheet+xml"/>\<newline>''
     @ ''</Types>''\<close>

definition relsXML :: string where
  \<open>relsXML =
     ''<?xml version="1.0" encoding="UTF-8" standalone="yes"?>\<newline>''
     @ ''<Relationships xmlns="http://schemas.openxmlformats.org/package/2006/relationships">\<newline>''
     @ ''  <Relationship Id="rId1" Type="http://schemas.openxmlformats.org/officeDocument/2006/relationships/officeDocument" Target="xl/workbook.xml"/>\<newline>''
     @ ''</Relationships>''\<close>

definition workbookRelsXML :: string where
  \<open>workbookRelsXML =
     ''<?xml version="1.0" encoding="UTF-8" standalone="yes"?>\<newline>''
     @ ''<Relationships xmlns="http://schemas.openxmlformats.org/package/2006/relationships">\<newline>''
     @ ''  <Relationship Id="rId1" Type="http://schemas.openxmlformats.org/officeDocument/2006/relationships/worksheet" Target="worksheets/sheet1.xml"/>\<newline>''
     @ ''</Relationships>''\<close>

definition workbookXML :: string where
  \<open>workbookXML =
     ''<?xml version="1.0" encoding="UTF-8" standalone="yes"?>\<newline>''
     @ ''<workbook xmlns="http://schemas.openxmlformats.org/spreadsheetml/2006/main" xmlns:r="http://schemas.openxmlformats.org/officeDocument/2006/relationships">\<newline>''
     @ ''  <sheets>\<newline>''
     @ ''    <sheet name="Sheet1" sheetId="1" r:id="rId1"/>\<newline>''
     @ ''  </sheets>\<newline>''
     @ ''</workbook>''\<close>

definition sheetHeader :: string where
  \<open>sheetHeader =
     ''<?xml version="1.0" encoding="UTF-8" standalone="yes"?>\<newline>''
     @ ''<worksheet xmlns="http://schemas.openxmlformats.org/spreadsheetml/2006/main">\<newline>''
     @ ''  <sheetData>\<newline>''\<close>

definition sheetFooter :: string where
  \<open>sheetFooter =
     ''  </sheetData>\<newline>''
     @ ''</worksheet>''\<close>

record processedChunkXML =
  XIndex :: nat
  XML :: string

definition processChunkXML ::
  "'n lib \<Rightarrow> nat \<Rightarrow> 'n Row list \<Rightarrow> nat \<Rightarrow> error + processedChunkXML" where
  "processChunkXML E index rows startRowNum =
     Inr \<lparr>XIndex = index,
          XML = concat (map (\<lambda>(i, row).
                  buildRowXML (startRowNum + i) (map (sprintf_v (fmt_num E)) row))
                  (enumerate 0 rows))\<rparr>"

text \<open>
  \<open>writeSheet\<close> returns the bytes written to the worksheet part (the deferred flush runs on
  every return) and the error returned.
\<close>

definition writeSheet ::
  "'n lib \<Rightarrow> ExportConfig \<Rightarrow> nat list \<Rightarrow> string list \<Rightarrow> 'n Row list
     \<Rightarrow> (string \<times> error option) outcome" where
  "writeSheet E b sched headers rows =
     (let out = sheetHeader;
          rowNum = 1;
          (out, rowNum) = (if length headers > 0
                           then (out @ buildRowXML rowNum headers, rowNum + 1)
                           else (out, rowNum))
      in
        if Mode b = ModeSync then
          (let (out, rowNum) =
                 foldl (\<lambda>(out, rowNum) row.
                          (out @ buildRowXML rowNum (map (sprintf_v (fmt_num E)) row),
                           rowNum + 1))
                   (out, rowNum) rows
           in Returns (out @ sheetFooter, None))
        else
          (let chunkSize = (if ChunkSize b \<le> 0 then 10000 else ChunkSize b);
               workers = (if Workers b \<le> 0 then 4 else Workers b)
           in
             case splitIntoChunks rows (nat chunkSize) of
               None \<Rightarrow> Hangs
             | Some chunks \<Rightarrow>
                 (case deliver (nat workers)
                         (arrival_order sched
                            (map (\<lambda>(idx, chunk).
                                    processChunkXML E idx chunk (rowNum + idx * nat chunkSize))
                               (enumerate 0 chunks)))
                         ([], []) of
                    None \<Rightarrow> Hangs
                  | Some (arrived, errs) \<Rightarrow>
                      (case collect XIndex arrived
                              (replicate (length chunks) \<lparr>XIndex = 0, XML = []\<rparr>) of
                         None \<Rightarrow> Panics
                       | Some results \<Rightarrow>
                           (case errs of
                              err # _ \<Rightarrow> Returns (out, Some err)
                            | [] \<Rightarrow>
                                Returns
                                  (foldl (\<lambda>out result. out @ XML result) out results
                                     @ sheetFooter,
                                   None))))))"


section \<open>The split+zip partitioner\<close>

text \<open>
  Go's \<^verbatim>\<open>int\<close> is taken to be 64 bits wide: \<open>wrap64\<close> is the value an addition or a
  subtraction leaves, \<open>go_quot\<close> is Go's division, which truncates towards zero.
\<close>

definition wrap64 :: "int \<Rightarrow> int" where
  "wrap64 x = (x + 2 ^ 63) mod 2 ^ 64 - 2 ^ 63"

definition go_quot :: "int \<Rightarrow> int \<Rightarrow> int" where
  "go_quot a b = (if (a < 0) = (b < 0) then \<bar>a\<bar> div \<bar>b\<bar> else - (\<bar>a\<bar> div \<bar>b\<bar>))"

record PartResult =
  PartIndex :: nat
  Data :: string
  RowCount :: nat
  Error :: "error option"

definition getPartFilename :: "SplitZipConfig \<Rightarrow> nat \<Rightarrow> string" where
  "getPartFilename s partIdx =
     (let ext = (if SZFormat s = FormatXLSX then ''xlsx'' else ''csv'')
      in ''part_'' @ fmt_d (partIdx + 1) @ ''.'' @ ext)"

text \<open>
  Package \<^verbatim>\<open>splitzip\<close> has its own copies of \<^verbatim>\<open>buildRowXML\<close>, \<^verbatim>\<open>columnName\<close> and the
  four fixed parts, equal to those of package \<^verbatim>\<open>xlsx\<close> character by character; its
  \<^verbatim>\<open>writeSheet\<close> differs and is \<open>sz_writeSheet\<close> here.
\<close>

definition sz_writeSheet :: "'n lib \<Rightarrow> string list \<Rightarrow> 'n Row list \<Rightarrow> bool \<Rightarrow> string" where
  "sz_writeSheet E headers rows includeHeaders =
     (let out = sheetHeader;
          rowNum = 1;
          (out, rowNum) = (if includeHeaders \<and> length headers > 0
                           then (out @ buildRowXML rowNum headers, rowNum + 1)
                           else (out, rowNum));
          (out, rowNum) =
             foldl (\<lambda>(out, rowNum) row.
                      (out @ buildRowXML rowNum (map (sprintf_v (fmt_num E)) row), rowNum + 1))
               (out, rowNum) rows
      in out @ sheetFooter)"

definition writeXLSXStructure ::
  "'n lib \<Rightarrow> string list \<Rightarrow> 'n Row list \<Rightarrow> bool \<Rightarrow> (string \<times> string) list" where
  "writeXLSXStructure E headers rows includeHeaders =
     [(''[Content_Types].xml'', contentTypesXML),
      (''_rels/.rels'', relsXML),
      (''xl/_rels/workbook.xml.rels'', workbookRelsXML),
      (''xl/workbook.xml'', workbookXML),
      (''xl/worksheets/sheet1.xml'', sz_writeSheet E headers rows includeHeaders)]"

definition writeXLSXPartToZip ::
  "'n lib \<Rightarrow> (string \<times> string) list \<Rightarrow> string \<Rightarrow> string list \<Rightarrow> 'n Row list \<Rightarrow> bool
     \<Rightarrow> (string \<times> string) list \<times> error option" where
  "writeXLSXPartToZip E zw filename headers rows includeHeaders =
     (zw @ [(filename, zip_bytes E (writeXLSXStructure E headers rows includeHeaders))], None)"

definition generateXLSXPartData ::
  "'n lib \<Rightarrow> string list \<Rightarrow> 'n Row list \<Rightarrow> bool \<Rightarrow> error + string" where
  "generateXLSXPartData E headers rows includeHeaders =
     Inr (zip_bytes E (writeXLSXStructure E headers rows includeHeaders))"

definition writeCSVPartToZip ::
  "'n lib \<Rightarrow> (string \<times> string) list \<Rightarrow> string \<Rightarrow> string list \<Rightarrow> 'n Row list \<Rightarrow> bool
     \<Rightarrow> (string \<times> string) list \<times> error option" where
  "writeCSVPartToZip E zw filename headers rows includeHeaders =
     (let out = (if includeHeaders \<and> length headers > 0 then csv_record E headers else []);
          out = foldl (\<lambda>out row. out @ csv_record E (map (sprintf_v (fmt_num E)) row)) out rows
      in (zw @ [(filename, out)], None))"

definition generateCSVPartData ::
  "'n lib \<Rightarrow> string list \<Rightarrow> 'n Row list \<Rightarrow> bool \<Rightarrow> error + string" where
  "generateCSVPartData E headers rows includeHeaders =
     (let out = (if includeHeaders \<and> length headers > 0 then csv_record E headers else []);
          out = foldl (\<lambda>out row. out @ csv_record E (map (sprintf_v (fmt_num E)) row)) out rows
      in Inr out)"

definition writePartToZip ::
  "'n lib \<Rightarrow> SplitZipConfig \<Rightarrow> (string \<times> string) list \<Rightarrow> string \<Rightarrow> string list \<Rightarrow> 'n Row list
     \<Rightarrow> (string \<times> string) list \<times> error option" where
  "writePartToZip E s zw filename headers rows =
     (if SZFormat s = FormatCSV
      then writeCSVPartToZip E zw filename headers rows (IncludeHeaders s)
      else if SZFormat s = FormatXLSX
      then writeXLSXPartToZip E zw filename headers rows (IncludeHeaders s)
      else (zw, Some (UnsupportedFormat (SZFormat s))))"

definition generatePartData ::
  "'n lib \<Rightarrow> SplitZipConfig \<Rightarrow> string list \<Rightarrow> 'n Row list \<Rightarrow> error + string" where
  "generatePartData E s headers rows =
     (if SZFormat s = FormatCSV
      then generateCSVPartData E headers rows (IncludeHeaders s)
      else if SZFormat s = FormatXLSX
      then generateXLSXPartData E headers rows (IncludeHeaders s)
      else Inl (UnsupportedFormat (SZFormat s)))"

text \<open>
  The loop of \<^verbatim>\<open>executeSync\<close> over the part indices. \<^verbatim>\<open>rows[startIdx:endIdx]\<close> panics when
  \<^verbatim>\<open>startIdx > endIdx\<close> (\<^verbatim>\<open>endIdx\<close> is at most \<^verbatim>\<open>len(rows)\<close> by the clamp).
\<close>

fun syncLoop ::
  "'n lib \<Rightarrow> SplitZipConfig \<Rightarrow> string list \<Rightarrow> 'n Row list \<Rightarrow> nat \<Rightarrow> nat list
     \<Rightarrow> (string \<times> string) list \<Rightarrow> string list
     \<Rightarrow> ((string \<times> string) list \<times> (error + string list)) outcome" where
  "syncLoop E s headers rows chunkSize [] zw partFiles = Returns (zw, Inr partFiles)"
| "syncLoop E s headers rows chunkSize (partIdx # rest) zw partFiles =
     (let startIdx = partIdx * chunkSize;
          endIdx = startIdx + chunkSize;
          endIdx = (if endIdx > length rows then length rows else endIdx)
      in
        if startIdx > endIdx then Panics
        else
          let partRows = slice rows startIdx endIdx;
              filename = getPartFilename s partIdx
          in
            case writePartToZip E s zw filename headers partRows of
              (zw, Some err) \<Rightarrow> Returns (zw, Inl (WritePartFailed (partIdx + 1) err))
            | (zw, None) \<Rightarrow>
                syncLoop E s headers rows chunkSize rest zw (partFiles @ [filename]))"

text \<open>\<^verbatim>\<open>make([]string, 0, numParts)\<close> panics on a negative capacity.\<close>

definition executeSync ::
  "'n lib \<Rightarrow> SplitZipConfig \<Rightarrow> (string \<times> string) list \<Rightarrow> string list \<Rightarrow> 'n Row list \<Rightarrow> nat \<Rightarrow> int
     \<Rightarrow> ((string \<times> string) list \<times> (error + string list)) outcome" where
  "executeSync E s zw headers rows chunkSize numParts =
     (if numParts < 0 then Panics
      else syncLoop E s headers rows chunkSize [0..<nat numParts] zw [])"

text \<open>
  The dispatch loop of \<^verbatim>\<open>executeParallel\<close>: the slices are taken by the caller, one
  goroutine is started for each. \<open>None\<close> is the panic of an out-of-range slice.
\<close>

fun dispatchParts :: "'a list \<Rightarrow> nat \<Rightarrow> nat list \<Rightarrow> (nat \<times> 'a list) list option" where
  "dispatchParts rows chunkSize [] = Some []"
| "dispatchParts rows chunkSize (partIdx # rest) =
     (let startIdx = partIdx * chunkSize;
          endIdx = startIdx + chunkSize;
          endIdx = (if endIdx > length rows then length rows else endIdx)
      in
        if startIdx > endIdx then None
        else
          case dispatchParts rows chunkSize rest of
            None \<Rightarrow> None
          | Some tasks \<Rightarrow> Some ((partIdx, slice rows startIdx endIdx) # tasks))"

text \<open>
  \<^verbatim>\<open>make(chan types.PartResult, numParts)\<close> panics on a negative size. \<^verbatim>\<open>sort.Slice\<close>
  orders the results by \<^verbatim>\<open>PartIndex\<close>; the indices differ, so any sorting algorithm gives
  the same list.
\<close>

definition executeParallel ::
  "'n lib \<Rightarrow> SplitZipConfig \<Rightarrow> nat list \<Rightarrow> (string \<times> string) list \<Rightarrow> string list \<Rightarrow> 'n Row list
     \<Rightarrow> nat \<Rightarrow> int \<Rightarrow> ((string \<times> string) list \<times> (error + string list)) outcome" where
  "executeParallel E s sched zw headers rows chunkSize numParts =
     (let workers = (if SZWorkers s \<le> 0 then 4 else SZWorkers s)
      in
        if numParts < 0 then Panics
        else
          case dispatchParts rows chunkSize [0..<nat numParts] of
            None \<Rightarrow> Panics
          | Some tasks \<Rightarrow>
              (case deliver (nat workers)
                      (arrival_order sched
                         (map (\<lambda>(idx, data).
                                 case generatePartData E s headers data of
                                   Inl err \<Rightarrow> Inl (PartError (idx + 1) err)
                                 | Inr partData \<Rightarrow>
                                     Inr \<lparr>PartIndex = idx, Data = partData,
                                          RowCount = length data, Error = None\<rparr>)
                            tasks))
                      ([], []) of
                 None \<Rightarrow> Hangs
               | Some (results, errs) \<Rightarrow>
                   (case errs of
                      err # _ \<Rightarrow> Returns (zw, Inl err)
                    | [] \<Rightarrow>
                        let results = sort_key PartIndex results
                        in Returns
                             (foldl (\<lambda>zw result.
                                       zw @ [(getPartFilename s (PartIndex result), Data result)])
                                zw results,
                              Inr (map (\<lambda>result. getPartFilename s (PartIndex result))
                                     results)))))"

definition Execute ::
  "'n lib \<Rightarrow> SplitZipConfig \<Rightarrow> nat list \<Rightarrow> string list \<Rightarrow> 'n Row list
     \<Rightarrow> ((string \<times> string) list, SplitZipResult) effect" where
  "Execute E s sched headers rows =
     (if \<not> Split s \<or> \<not> Zip s then Returns (None, Inl SplitZipDisabled)
      else
        let chunkSize = (if SZChunkSize s \<le> 0 then 10000 else SZChunkSize s);
            totalRows = int (length rows);
            numParts = go_quot (wrap64 (wrap64 (totalRows + chunkSize) - 1)) chunkSize;
            numParts = (if numParts = 0 then 1 else numParts)
        in
          if \<not> can_create E (SZOutputPath s) then Returns (None, Inl CreateOutputFailed)
          else
            case (if SZMode s = ModeSync
                  then executeSync E s [] headers rows (nat chunkSize) numParts
                  else if SZMode s = ModeParallel \<or> SZMode s = ModeGlobalPool
                  then executeParallel E s sched [] headers rows (nat chunkSize) numParts
                  else executeSync E s [] headers rows (nat chunkSize) numParts) of
              Hangs \<Rightarrow> Hangs
            | Panics \<Rightarrow> Panics
            | Returns (zw, Inl err) \<Rightarrow> Returns (Some zw, Inl err)
            | Returns (zw, Inr partFiles) \<Rightarrow>
                Returns (Some zw,
                         Inr \<lparr>ROutputPath = SZOutputPath s, TotalParts = numParts,
                              TotalRows = totalRows, PartFiles = partFiles\<rparr>))"

section \<open>The worker pool\<close>

text \<open>
  The state of a \<^verbatim>\<open>Pool\<close>: the buffered channel \<^verbatim>\<open>jobQueue\<close> is its buffer, its capacity
  and whether it has been closed; \<^verbatim>\<open>once\<close> is the flag \<open>onceDone\<close>; the wait group counts
  the worker goroutines still \<open>running\<close>. \<open>spawned\<close> counts the goroutines ever started and
  \<open>processed\<close> lists the jobs the workers have received.

  \<^verbatim>\<open>Submit\<close> and \<^verbatim>\<open>Shutdown\<close> hold the mutex from entry to return and \<^verbatim>\<open>Start\<close> runs
  under \<^verbatim>\<open>sync.Once\<close>, so the calls are steps on this state; the worker goroutines move
  between the calls, one receive at a time (\<open>workerStep\<close>).
\<close>

record 'j Pool =
  workers :: int
  queueSize :: nat
  jobQueue :: "'j list"
  closed :: bool
  onceDone :: bool
  spawned :: nat
  running :: nat
  stopped :: bool
  processed :: "'j list"

definition NewPool :: "int \<Rightarrow> int \<Rightarrow> 'j Pool" where
  "NewPool n cap =
     \<lparr>workers = (if n \<le> 0 then 1 else n),
      queueSize = nat (if cap \<le> 0 then 100 else cap),
      jobQueue = [], closed = False, onceDone = False, spawned = 0, running = 0,
      stopped = False, processed = []\<rparr>"

definition Start :: "'j Pool \<Rightarrow> 'j Pool outcome" where
  "Start p =
     (if onceDone p then Returns p
      else Returns (p\<lparr>onceDone := True,
                      spawned := spawned p + nat (workers p),
                      running := running p + nat (workers p)\<rparr>))"

text \<open>
  One move of a worker: \<^verbatim>\<open>for job := range p.jobQueue\<close> receives the oldest job, or
  leaves the loop when the queue is closed and empty.
\<close>

definition workerStep :: "'j Pool \<Rightarrow> 'j Pool" where
  "workerStep p =
     (if running p = 0 then p
      else
        case jobQueue p of
          job # rest \<Rightarrow> p\<lparr>jobQueue := rest, processed := processed p @ [job]\<rparr>
        | [] \<Rightarrow> (if closed p then p\<lparr>running := running p - 1\<rparr> else p))"

text \<open>
  \<^verbatim>\<open>p.jobQueue <- job\<close> panics on a closed channel. On a full queue it waits, with the
  mutex held, until a worker receives the oldest job; without a running worker it waits
  forever.
\<close>

definition Submit :: "'j \<Rightarrow> 'j Pool \<Rightarrow> 'j Pool outcome" where
  "Submit job p =
     (if \<not> stopped p then
        (if closed p then Panics
         else if length (jobQueue p) < queueSize p
         then Returns (p\<lparr>jobQueue := jobQueue p @ [job]\<rparr>)
         else if running p > 0
         then (case jobQueue p of
                 [] \<Rightarrow> Returns (p\<lparr>processed := processed p @ [job]\<rparr>)
               | oldest # rest \<Rightarrow>
                   Returns (p\<lparr>jobQueue := rest @ [job],
                              processed := processed p @ [oldest]\<rparr>))
         else Hangs)
      else Returns p)"

text \<open>
  \<^verbatim>\<open>close(p.jobQueue)\<close> panics on a closed channel. \<^verbatim>\<open>p.wg.Wait()\<close> returns when the
  running workers have received the jobs left in the queue and have returned.
\<close>

definition Shutdown :: "'j Pool \<Rightarrow> 'j Pool outcome" where
  "Shutdown p =
     (if \<not> stopped p then
        (let p = p\<lparr>stopped := True\<rparr>
         in if closed p then Panics
            else
              let p = p\<lparr>closed := True\<rparr>
              in Returns (if running p > 0
                          then p\<lparr>processed := processed p @ jobQueue p, jobQueue := [],
                                 running := 0\<rparr>
                          else p))
      else Returns p)"

datatype 'j pool_op = CallStart | CallSubmit 'j | CallShutdown | WorkerMove

fun pool_step :: "'j pool_op \<Rightarrow> 'j Pool \<Rightarrow> 'j Pool outcome" where
  "pool_step CallStart p = Start p"
| "pool_step (CallSubmit job) p = Submit job p"
| "pool_step CallShutdown p = Shutdown p"
| "pool_step WorkerMove p = Returns (workerStep p)"

fun pool_run :: "'j pool_op list \<Rightarrow> 'j Pool \<Rightarrow> 'j Pool outcome" where
  "pool_run [] p = Returns p"
| "pool_run (x # xs) p =
     (case pool_step x p of
        Returns p' \<Rightarrow> pool_run xs p'
      | Panics \<Rightarrow> Panics
      | Hangs \<Rightarrow> Hangs)"

section \<open>A concrete environment\<close>

text \<open>
  For evaluating the model on examples: numbers are naturals printed in decimal, every
  non-empty path can be created, an archive is laid out as its names and contents in order,
  and a CSV record is written by the quoting rule of the spec (a field that contains a comma,
  a double quote or a line break is quoted, with its double quotes doubled).
\<close>

definition csvField :: "string \<Rightarrow> string" where
  "csvField f =
     (if CHR '','' \<in> set f \<or> CHR 0x22 \<in> set f \<or> CHR 0x0A \<in> set f \<or> CHR 0x0D \<in> set f
      then [CHR 0x22] @ concat (map (\<lambda>c. if c = CHR 0x22 then [c, c] else [c]) f) @ [CHR 0x22]
      else f)"

fun csvJoin :: "string list \<Rightarrow> string" where
  "csvJoin [] = []"
| "csvJoin [f] = f"
| "csvJoin (f # g # fs) = f @ '','' @ csvJoin (g # fs)"

definition csvRecord :: "string list \<Rightarrow> string" where
  "csvRecord record = csvJoin (map csvField record) @ ''\<newline>''"

definition exampleLib :: "nat lib" where
  "exampleLib =
     \<lparr>fmt_num = fmt_d,
      csv_record = csvRecord,
      zip_bytes = (\<lambda>entries. concat (map (\<lambda>(name, data). name @ data) entries)),
      can_create = (\<lambda>path. path \<noteq> [])\<rparr>"

section \<open>Notions used in the statements\<close>

text \<open>The number of parts the spec asks for: \<open>\<lceil>N/C\<rceil>\<close>, and one part for no rows.\<close>

definition partCount :: "nat \<Rightarrow> nat \<Rightarrow> nat" where
  "partCount N C = (if N = 0 then 1 else (N + C - 1) div C)"

text \<open>The bytes of one part, for a supported format.\<close>

definition partData :: "'n lib \<Rightarrow> SplitZipConfig \<Rightarrow> string list \<Rightarrow> 'n Row list \<Rightarrow> string" where
  "partData E s headers partRows = projr (generatePartData E s headers partRows)"

text \<open>A cell with the absent value replaced by the text \<^verbatim>\<open><nil>\<close>.\<close>

fun nil_as_text :: "'n cell \<Rightarrow> 'n cell" where
  "nil_as_text Nil = Text ''<nil>''"
| "nil_as_text c = c"

text \<open>
  What every reachable state of a pool satisfies: the queue is closed exactly when the pool
  is stopped, and the goroutines started are those of the one effective \<^verbatim>\<open>Start\<close>.
\<close>

definition pool_inv :: "'j Pool \<Rightarrow> bool" where
  "pool_inv p \<longleftrightarrow>
     (closed p \<longleftrightarrow> stopped p) \<and> spawned p = (if onceDone p then nat (workers p) else 0)"

section \<open>Column names\<close>

lemma columnLoop_spec_letters: "columnLoop n name = spec_letters n @ name"
proof (induction n name rule: columnLoop.induct)
  case (1 col name)
  show ?case
  proof (cases "col > 0")
    case True
    then show ?thesis
      using "1.IH" [OF True]
      by (subst columnLoop.simps, subst spec_letters.simps) simp
  next
    case False
    then show ?thesis
      by (subst columnLoop.simps, subst spec_letters.simps) simp
  qed
qed

lemma letters_value_snoc:
  "letters_value (s @ [c]) = letters_value s * 26 + (of_char c - 64)"
  by (simp add: letters_value_def)

lemma letters_value_spec_letters: "letters_value (spec_letters n) = n"
proof (induction n rule: spec_letters.induct)
  case (1 c')
  show ?case
  proof (cases "c' = 0")
    case True
    then show ?thesis
      by (subst spec_letters.simps) (simp add: letters_value_def)
  next
    case False
    have digit: "of_char (char_of (65 + (c' - 1) mod 26) :: char) = 65 + (c' - 1) mod 26"
      by simp
    have "letters_value (spec_letters c') =
            letters_value (spec_letters ((c' - 1) div 26)) * 26 + ((65 + (c' - 1) mod 26) - 64)"
      using False digit by (subst spec_letters.simps) (simp add: letters_value_snoc)
    also have "\<dots> = ((c' - 1) div 26) * 26 + ((c' - 1) mod 26 + 1)"
      using "1.IH" [OF False] by simp
    also have "\<dots> = c'"
      using False by simp
    finally show ?thesis .
  qed
qed

lemma spec_letters_capital: "set (spec_letters n) \<subseteq> char_of ` {65..<91::nat}"
proof (induction n rule: spec_letters.induct)
  case (1 c')
  show ?case
  proof (cases "c' = 0")
    case True
    then show ?thesis by (subst spec_letters.simps) simp
  next
    case False
    have "65 + (c' - 1) mod 26 \<in> {65..<91::nat}" by simp
    then show ?thesis
      using "1.IH" [OF False] False by (subst spec_letters.simps) auto
  qed
qed

lemma columnName_value: "letters_value (columnName c) = c + 1"
  by (simp add: columnName_def columnLoop_spec_letters letters_value_spec_letters)

lemma columnName_injective: "inj columnName"
proof (rule injI)
  fix a b
  assume "columnName a = columnName b"
  then have "letters_value (columnName a) = letters_value (columnName b)"
    by simp
  then show "a = b"
    by (simp add: columnName_value)
qed

lemma columnName_examples:
  "columnName 0 = ''A''" "columnName 25 = ''Z''" "columnName 26 = ''AA''"
  "columnName 701 = ''ZZ''" "columnName 702 = ''AAA''"
  by code_simp+

text \<open>
  Claim C4. The column name of the 0-based index \<open>c\<close> is the string of letters the spec
  describes, started at \<open>c + 1\<close>: capital letters only, of value \<open>c + 1\<close> in bijective base
  26. The indices 0, 25, 26, 701 and 702 give A, Z, AA, ZZ and AAA, and different indices
  have different names.
\<close>

theorem columnName_bijective_base26:
  "columnName c = spec_letters (c + 1)
   \<and> set (columnName c) \<subseteq> char_of ` {65..<91::nat}
   \<and> letters_value (columnName c) = c + 1
   \<and> columnName 0 = ''A'' \<and> columnName 25 = ''Z'' \<and> columnName 26 = ''AA''
   \<and> columnName 701 = ''ZZ'' \<and> columnName 702 = ''AAA''
   \<and> inj columnName"
proof -
  have "columnName c = spec_letters (c + 1)"
    by (simp add: columnName_def columnLoop_spec_letters)
  moreover from this have "set (columnName c) \<subseteq> char_of ` {65..<91::nat}"
    by (simp add: spec_letters_capital)
  ultimately show ?thesis
    using columnName_value columnName_injective columnName_examples by blast
qed

theorem columnName_bijective_base26_witness:
  "columnName 27 = spec_letters (27 + 1) \<and> letters_value (columnName 27) = 27 + 1"
  using columnName_bijective_base26 [of 27] by blast

section \<open>Escaping\<close>

lemma EscapeString_append: "EscapeString (a @ b) = EscapeString a @ EscapeString b"
  by (simp add: EscapeString_def)

lemma EscapeString_plain:
  "set s \<inter> {CHR ''&'', CHR 0x27, CHR ''<'', CHR ''>'', CHR 0x22} = {} \<Longrightarrow> EscapeString s = s"
  by (induction s) (auto simp: EscapeString_def escapeChar_def)




section \<open>The chunker partitions the rows\<close>

lemma ceil_div_less: "0 < C \<Longrightarrow> j < (N + C - 1) div C \<longleftrightarrow> j * C < (N::nat)"
proof -
  assume C: "0 < C"
  have "j < (N + C - 1) div C \<longleftrightarrow> Suc j \<le> (N + C - 1) div C"
    by auto
  also have "\<dots> \<longleftrightarrow> Suc j * C \<le> N + C - 1"
    using C by (simp add: less_eq_div_iff_mult_less_eq)
  also have "\<dots> \<longleftrightarrow> j * C < N"
    using C by auto
  finally show ?thesis .
qed

text \<open>\<open>(N + C - 1) div C\<close> is the least \<open>k\<close> with \<open>N \<le> k * C\<close>: the ceiling of \<open>N / C\<close>.\<close>

lemma ceil_div_le: "0 < C \<Longrightarrow> (N + C - 1) div C \<le> k \<longleftrightarrow> (N::nat) \<le> k * C"
  using ceil_div_less [of C k N] by auto

lemma splitLoop_from:
  "0 < C \<Longrightarrow>
   splitLoop rows C (j * C) acc
     = Some (acc @ map (\<lambda>i. slice rows (i * C) (min ((i + 1) * C) (length rows)))
                      [j..<(length rows + C - 1) div C])"
proof (induction "(length rows + C - 1) div C - j" arbitrary: j acc)
  case 0
  then have "\<not> j < (length rows + C - 1) div C"
    by simp
  then have "\<not> j * C < length rows"
    using ceil_div_less [OF \<open>0 < C\<close>] by blast
  then show ?case
    using 0 by (subst splitLoop.simps) simp
next
  case (Suc d)
  then have lt: "j < (length rows + C - 1) div C"
    by simp
  then have lt': "j * C < length rows"
    using ceil_div_less [OF \<open>0 < C\<close>] by blast
  have d: "d = (length rows + C - 1) div C - Suc j"
    using Suc.hyps(2) by simp
  have step: "splitLoop rows C (j * C) acc =
      splitLoop rows C (Suc j * C)
        (acc @ [slice rows (j * C) (min ((j + 1) * C) (length rows))])"
    using lt' by (subst splitLoop.simps) (simp add: min_def add.commute)
  show ?case
    unfolding step Suc.hyps(1) [OF d \<open>0 < C\<close>]
    using lt by (simp add: upt_conv_Cons)
qed

lemma splitIntoChunks_eq:
  "0 < C \<Longrightarrow>
   splitIntoChunks rows C
     = Some (map (\<lambda>i. slice rows (i * C) (min ((i + 1) * C) (length rows)))
               [0..<(length rows + C - 1) div C])"
  using splitLoop_from [of C rows 0 "[]"] by (simp add: splitIntoChunks_def)

lemma take_slice_next:
  "take (n * C) rows @ slice rows (n * C) (min (Suc n * C) (length rows)) = take (n * C + C) rows"
proof (cases "Suc n * C \<le> length rows")
  case True
  then show ?thesis
    by (simp add: slice_def min_def take_add)
next
  case False
  then have "take (n * C) rows @ take (length rows - n * C) (drop (n * C) rows) = rows"
    by (metis append_take_drop_id length_drop order_refl take_all)
  then show ?thesis
    using False by (simp add: slice_def min_def add.commute)
qed

lemma concat_slices:
  "concat (map (\<lambda>i. slice rows (i * C) (min ((i + 1) * C) (length rows))) [0..<n])
     = take (n * C) rows"
proof (induction n)
  case 0
  then show ?case by simp
next
  case (Suc n)
  then show ?case
    using take_slice_next [of n C rows] by (simp add: add.commute)
qed

lemma concat_all_slices:
  assumes "0 < C"
  shows "concat (map (\<lambda>i. slice rows (i * C) (min ((i + 1) * C) (length rows)))
                   [0..<(length rows + C - 1) div C]) = rows"
proof -
  have "\<not> (length rows + C - 1) div C < (length rows + C - 1) div C"
    by simp
  then have "length rows \<le> (length rows + C - 1) div C * C"
    using ceil_div_less [OF assms, of "(length rows + C - 1) div C" "length rows"]
    by simp
  then show ?thesis
    by (subst concat_slices) simp
qed

text \<open>
  Claim C7, as the claim states it, fails: with no rows the chunker returns no chunk, not
  one.
\<close>

theorem chunker_minimum_one_counterexample:
  "map_option length (splitIntoChunks ([] :: nat list) 3) = Some 0"
  by (simp add: splitIntoChunks_def splitLoop.simps)

text \<open>
  Claim C7, amended. For \<open>N\<close> rows and a positive chunk size \<open>C\<close> the chunker returns
  exactly \<open>\<lceil>N/C\<rceil>\<close> chunks, chunk \<open>i\<close> is the rows of the half-open range from \<open>i * C\<close> to
  \<open>min ((i + 1) * C) N\<close>, the chunks put end to end are the rows, and there is no chunk when
  \<open>N = 0\<close>.
\<close>

theorem chunker_partition:
  assumes "0 < C"
  shows "\<exists>chunks. splitIntoChunks rows C = Some chunks
           \<and> length chunks = (length rows + C - 1) div C
           \<and> (\<forall>i < length chunks.
                 chunks ! i = slice rows (i * C) (min ((i + 1) * C) (length rows)))
           \<and> concat chunks = rows
           \<and> (rows = [] \<longrightarrow> chunks = [])"
proof -
  let ?chunks = "map (\<lambda>i. slice rows (i * C) (min ((i + 1) * C) (length rows)))
                   [0..<(length rows + C - 1) div C]"
  have "splitIntoChunks rows C = Some ?chunks"
    by (rule splitIntoChunks_eq [OF assms])
  moreover have "length ?chunks = (length rows + C - 1) div C"
    by simp
  moreover have "\<forall>i < length ?chunks.
      ?chunks ! i = slice rows (i * C) (min ((i + 1) * C) (length rows))"
    by simp
  moreover have "concat ?chunks = rows"
    by (rule concat_all_slices [OF assms])
  moreover have "rows = [] \<longrightarrow> ?chunks = []"
    using assms by simp
  ultimately show ?thesis
    by blast
qed

theorem chunker_partition_witness:
  "(0::nat) < 2
   \<and> splitIntoChunks [1, 2, 3, 4, 5 :: nat] 2 = Some [ [1, 2], [3, 4], [5] ]"
proof -
  have pos: "(0::nat) < 2"
    by simp
  obtain chunks where c: "splitIntoChunks [1, 2, 3, 4, 5 :: nat] 2 = Some chunks"
    using chunker_partition [OF pos, of "[1, 2, 3, 4, 5 :: nat]"] by blast
  have "splitIntoChunks [1, 2, 3, 4, 5 :: nat] 2 = Some [ [1, 2], [3, 4], [5] ]"
    by code_simp
  then show ?thesis
    using pos c by simp
qed

section \<open>Schedules, channels and reassembly\<close>

lemma foldl_append_concat: "foldl (\<lambda>out x. out @ f x) out xs = out @ concat (map f xs)"
  by (induction xs arbitrary: out) simp_all

lemma remove_nth_mset:
  "j < length ys \<Longrightarrow> add_mset (ys ! j) (mset (take j ys @ drop (Suc j) ys)) = mset ys"
  by (metis id_take_nth_drop mset.simps(2) mset_append union_mset_add_mset_right)

lemma arrival_order_mset: "mset (arrival_order sched xs) = mset xs"
proof (induction sched xs rule: arrival_order.induct)
  case (3 k sched x xs)
  let ?j = "k mod length (x # xs)"
  have j: "?j < length (x # xs)" by simp
  have "mset (arrival_order (k # sched) (x # xs))
      = add_mset ((x # xs) ! ?j) (mset (take ?j (x # xs) @ drop (Suc ?j) (x # xs)))"
    using "3.IH" [OF refl] by (simp add: Let_def del: take_Suc_Cons drop_Suc_Cons nth_Cons_Suc mset_append)
  also have "\<dots> = mset (x # xs)" by (rule remove_nth_mset [OF j])
  finally show ?case .
qed simp_all

lemma arrival_order_map: "arrival_order sched (map f xs) = map f (arrival_order sched xs)"
proof (induction sched xs rule: arrival_order.induct)
  case (3 k sched x xs)
  let ?j = "k mod length (x # xs)"
  have j: "?j < length (x # xs)" by simp
  have m: "map f (x # xs) = f x # map f xs" by simp
  show ?case
    unfolding m arrival_order.simps Let_def
    using "3.IH" [OF refl] j
    by (simp add: take_map drop_map del: take_Suc_Cons drop_Suc_Cons nth_Cons_Suc
         flip: list.map)
qed simp_all

text \<open>Every order of completion is the order of some schedule.\<close>

lemma arrival_order_complete:
  "mset ys = mset xs \<Longrightarrow> \<exists>sched. arrival_order sched xs = ys"
proof (induction ys arbitrary: xs)
  case Nil
  then show ?case by simp
next
  case (Cons y ys)
  then have "y \<in> set xs"
    by (metis list.set_intros(1) mset_eq_setD)
  then obtain j where j: "j < length xs" and y: "xs ! j = y"
    by (auto simp: in_set_conv_nth)
  let ?rest = "take j xs @ drop (Suc j) xs"
  have "add_mset y (mset ?rest) = mset xs"
    using remove_nth_mset [OF j] y by simp
  also have "mset xs = add_mset y (mset ys)"
    using Cons.prems by simp
  finally have "mset ys = mset ?rest"
    by simp
  then obtain sched where sched: "arrival_order sched ?rest = ys"
    using Cons.IH by blast
  obtain x xs' where xs: "xs = x # xs'"
    using j by (cases xs) auto
  have "arrival_order (j # sched) (x # xs') = (x # xs') ! j # arrival_order sched (take j (x # xs') @ drop (Suc j) (x # xs'))"
    using j xs by (simp add: Let_def del: take_Suc_Cons drop_Suc_Cons nth_Cons_Suc)
  then have "arrival_order (j # sched) xs = y # ys"
    using sched y xs by simp
  then show ?case by blast
qed

lemma deliver_all_results: "deliver cap (map Inr rs) (acc, es) = Some (acc @ rs, es)"
  by (induction rs arbitrary: acc) simp_all

lemma collect_fold:
  "\<forall>r \<in> set arrived. index r < length results \<Longrightarrow>
   collect index arrived results = Some (fold (\<lambda>r res. res[index r := r]) arrived results)"
  by (induction arrived arbitrary: results) simp_all

lemma length_fold_update: "length (fold (\<lambda>r res. res[index r := r]) arrived results) = length results"
  by (induction arrived arbitrary: results) simp_all

lemma fold_update_other:
  "\<forall>r \<in> set arrived. index r \<noteq> i \<Longrightarrow>
   fold (\<lambda>r res. res[index r := r]) arrived results ! i = results ! i"
  by (induction arrived arbitrary: results) simp_all

lemma fold_update_at:
  "r \<in> set arrived \<Longrightarrow> \<forall>r' \<in> set arrived. index r' = index r \<longrightarrow> r' = r \<Longrightarrow>
   index r < length results \<Longrightarrow>
   fold (\<lambda>r res. res[index r := r]) arrived results ! index r = r"
proof (induction arrived arbitrary: results)
  case Nil
  then show ?case by simp
next
  case (Cons x xs)
  show ?case
  proof (cases "r \<in> set xs")
    case True
    then show ?thesis using Cons by simp
  next
    case False
    then have x: "x = r" using Cons.prems(1) by simp
    have "\<forall>r' \<in> set xs. index r' \<noteq> index r"
      using Cons.prems(2) False by auto
    then show ?thesis
      using x Cons.prems(3) by (simp add: fold_update_other)
  qed
qed

lemma collect_permutation:
  assumes perm: "mset arrived = mset items"
    and idx: "\<forall>i < length items. index (items ! i) = i"
    and len: "length results = length items"
  shows "collect index arrived results = Some items"
proof -
  have set_eq: "set arrived = set items"
    using perm by (rule mset_eq_setD)
  have bound: "\<forall>r \<in> set arrived. index r < length results"
    using set_eq idx len by (auto simp: in_set_conv_nth)
  have uniq: "\<forall>r \<in> set arrived. \<forall>r' \<in> set arrived. index r' = index r \<longrightarrow> r' = r"
    using set_eq idx by (auto simp: in_set_conv_nth)
  let ?res = "fold (\<lambda>r res. res[index r := r]) arrived results"
  have "?res = items"
  proof (rule nth_equalityI)
    show "length ?res = length items" by (simp add: length_fold_update len)
  next
    fix i assume "i < length ?res"
    then have i: "i < length items" by (simp add: length_fold_update len)
    then have mem: "items ! i \<in> set arrived" using set_eq by simp
    have "?res ! index (items ! i) = items ! i"
      using mem uniq bound by (intro fold_update_at) auto
    then show "?res ! i = items ! i" using idx i by simp
  qed
  then show ?thesis using collect_fold [OF bound] by simp
qed

section \<open>The CSV writer: one output in every mode\<close>

lemma foldl_foldl_concat:
  "foldl (\<lambda>out x. foldl (\<lambda>out y. out @ f y) out (g x)) out xs
     = out @ concat (map (\<lambda>x. concat (map f (g x))) xs)"
  by (induction xs arbitrary: out) (simp_all add: foldl_append_concat)

lemma concat_map_concat:
  "concat (map (\<lambda>xs. concat (map f xs)) xss) = concat (map f (concat xss))"
  by (induction xss) simp_all

lemma map_enumerate_snd: "map (\<lambda>(idx, x). g x) (enumerate n xs) = map g xs"
  by (induction xs arbitrary: n) simp_all

lemma enumerate_index:
  "i < length xs \<Longrightarrow> map (\<lambda>(idx, x). mk idx x) (enumerate 0 xs) ! i = mk i (xs ! i)"
  by (simp add: nth_enumerate_eq)

lemma chunks_collected:
  assumes idx: "\<And>i x. index (mk i x) = i"
  shows "\<exists>arrived.
     deliver cap (arrival_order sched (map (\<lambda>(i, x). Inr (mk i x)) (enumerate 0 xs))) ([], [])
       = Some (arrived, [])
     \<and> collect index arrived (replicate (length xs) z)
       = Some (map (\<lambda>(i, x). mk i x) (enumerate 0 xs))"
proof -
  let ?items = "map (\<lambda>(i, x). mk i x) (enumerate 0 xs)"
  have m: "map (\<lambda>(i, x). Inr (mk i x)) (enumerate 0 xs) = map Inr ?items"
    by (simp add: case_prod_unfold)
  have d: "deliver cap (arrival_order sched (map (\<lambda>(i, x). Inr (mk i x)) (enumerate 0 xs))) ([], [])
       = Some (arrival_order sched ?items, [])"
    by (simp only: m arrival_order_map deliver_all_results append_Nil)
  have "\<forall>i < length ?items. index (?items ! i) = i"
    using idx by (simp add: nth_enumerate_eq)
  then have "collect index (arrival_order sched ?items) (replicate (length xs) z) = Some ?items"
    by (intro collect_permutation) (simp_all add: arrival_order_mset)
  with d show ?thesis by blast
qed

lemma effective_chunk_size: "0 < nat (if c \<le> 0 then 10000 else (c::int))"
  by simp

lemma WriteParallel_bytes:
  "WriteParallel E w sched headers rows =
     (if \<not> can_create E (OutputPath w) then Returns (None, Inl CreateOutputFailed)
      else Returns (Some ((if length headers > 0 then csv_record E headers else [])
               @ concat (map (\<lambda>row. csv_record E (map (sprintf_v (fmt_num E)) row)) rows)),
             Inr ()))"
proof (cases "can_create E (OutputPath w)")
  case False
  then show ?thesis by (simp add: WriteParallel_def Let_def)
next
  case True
  let ?C = "nat (if ChunkSize w \<le> 0 then 10000 else ChunkSize w)"
  let ?fmt = "\<lambda>row. map (sprintf_v (fmt_num E)) row"
  let ?mk = "\<lambda>i chunk. \<lparr>Index = i, Records = map ?fmt chunk\<rparr>"
  obtain chunks where chunks: "splitIntoChunks rows ?C = Some chunks"
    and cat: "concat chunks = rows"
    using splitIntoChunks_eq [OF effective_chunk_size, of rows "ChunkSize w"]
      concat_all_slices [OF effective_chunk_size, of rows "ChunkSize w"]
    by blast
  have pc: "(\<lambda>(idx, chunk). processChunk E idx chunk) = (\<lambda>(i, x). Inr (?mk i x))"
    by (simp add: processChunk_def fun_eq_iff)
  obtain arrived where
    d: "deliver (nat (if Workers w \<le> 0 then 4 else Workers w))
          (arrival_order sched (map (\<lambda>(idx, chunk). processChunk E idx chunk) (enumerate 0 chunks)))
          ([], []) = Some (arrived, [])"
    and c: "collect Index arrived (replicate (length chunks) \<lparr>Index = 0, Records = []\<rparr>)
          = Some (map (\<lambda>(i, x). ?mk i x) (enumerate 0 chunks))"
    unfolding pc
    using chunks_collected [of Index ?mk _ sched chunks] by fastforce
  have recs: "concat (map (\<lambda>x. concat (map (csv_record E) (Records x)))
                 (map (\<lambda>(i, x). ?mk i x) (enumerate 0 chunks)))
        = concat (map (\<lambda>row. csv_record E (?fmt row)) rows)"
  proof -
    have "map (\<lambda>x. concat (map (csv_record E) (Records x))) (map (\<lambda>(i, x). ?mk i x) (enumerate 0 chunks))
        = map (\<lambda>(i, chunk). concat (map (\<lambda>row. csv_record E (?fmt row)) chunk)) (enumerate 0 chunks)"
      by (simp add: case_prod_unfold comp_def)
    also have "\<dots> = map (\<lambda>chunk. concat (map (\<lambda>row. csv_record E (?fmt row)) chunk)) chunks"
      by (rule map_enumerate_snd)
    finally show ?thesis
      by (simp only: concat_map_concat cat)
  qed
  show ?thesis
    using True chunks d c recs
    by (simp add: WriteParallel_def Let_def foldl_foldl_concat)
qed

lemma WriteSync_bytes:
  "WriteSync E w headers rows =
     (if \<not> can_create E (OutputPath w) then Returns (None, Inl CreateOutputFailed)
      else Returns (Some ((if length headers > 0 then csv_record E headers else [])
               @ concat (map (\<lambda>row. csv_record E (map (sprintf_v (fmt_num E)) row)) rows)),
             Inr ()))"
  by (simp add: WriteSync_def Let_def foldl_append_concat)


text \<open>
  Claim C1. For all headers, rows, configuration and schedule the parallel writer returns
  what the synchronous writer returns, the bytes of the file included: the output does not
  depend on the order in which the chunks complete, on the chunk size or on the number of
  workers, and \<open>Write\<close> gives the same bytes in every mode.
\<close>

theorem csv_sync_parallel_identical:
  "WriteParallel E w sched headers rows = WriteSync E w headers rows
   \<and> WriteParallel E (w\<lparr>ChunkSize := c, Workers := k\<rparr>) sched' headers rows
       = WriteParallel E w sched headers rows
   \<and> Write E (w\<lparr>Mode := m\<rparr>) sched headers rows = WriteSync E w headers rows"
  by (simp add: WriteParallel_bytes WriteSync_bytes Write_def)

theorem csv_sync_parallel_identical_witness:
  "WriteParallel exampleLib
     \<lparr>Mode = ModeParallel, Format = FormatCSV, Workers = 2, ChunkSize = 1,
      InputPath = [], OutputPath = ''out.csv''\<rparr>
     [1, 0] [''Name'', ''Age''] [ [Text ''Ann'', Number 30], [Text ''Bo'', Number 25] ]
   = Returns (Some ''Name,Age\<newline>Ann,30\<newline>Bo,25\<newline>'', Inr ())"
  unfolding conjunct1 [OF csv_sync_parallel_identical]
  by code_simp

section \<open>The worksheet: row numbers\<close>

lemma foldl_rows:
  "foldl (\<lambda>(out, rowNum) row. (out @ g rowNum row, Suc rowNum)) (out, n) rows
     = (out @ concat (map (\<lambda>(k, row). g k row) (enumerate n rows)), n + length rows)"
  by (induction rows arbitrary: out n) simp_all

lemma enumerate_shift:
  "map (\<lambda>(i, row). g (s + i) row) (enumerate n xs) = map (\<lambda>(k, row). g k row) (enumerate (s + n) xs)"
  by (induction xs arbitrary: n) simp_all

lemma numbered_slices:
  "concat (map (\<lambda>idx. concat (map (\<lambda>(i, row). g (s + idx * C + i) row)
                                 (enumerate 0 (slice rows (idx * C) (min ((idx + 1) * C) (length rows))))))
             [0..<n])
     = concat (map (\<lambda>(k, row). g k row) (enumerate s (take (n * C) rows)))"
proof (induction n)
  case 0
  then show ?case by simp
next
  case (Suc n)
  let ?sl = "slice rows (n * C) (min (Suc n * C) (length rows))"
  have last: "concat (map (\<lambda>(i, row). g (s + n * C + i) row) (enumerate 0 ?sl))
      = concat (map (\<lambda>(k, row). g k row) (enumerate (s + length (take (n * C) rows)) ?sl))"
  proof (cases "n * C \<le> length rows")
    case True
    then show ?thesis
      using enumerate_shift [of g "s + n * C" 0 ?sl] by (simp add: min_def)
  next
    case False
    then have "?sl = []" by (simp add: slice_def)
    then show ?thesis by simp
  qed
  have "enumerate s (take (n * C + C) rows)
      = enumerate s (take (n * C) rows) @ enumerate (s + length (take (n * C) rows)) ?sl"
    unfolding take_slice_next [symmetric] by (rule enumerate_append_eq)
  then show ?case
    using Suc last by (simp add: add.commute)
qed

lemma numbered_chunks:
  assumes "0 < C"
  shows "concat (map (\<lambda>idx. concat (map (\<lambda>(i, row). g (s + idx * C + i) row)
                                 (enumerate 0 (slice rows (idx * C) (min ((idx + 1) * C) (length rows))))))
             [0..<(length rows + C - 1) div C])
     = concat (map (\<lambda>(k, row). g k row) (enumerate s rows))"
proof -
  have "\<not> (length rows + C - 1) div C < (length rows + C - 1) div C"
    by simp
  then have "length rows \<le> (length rows + C - 1) div C * C"
    using ceil_div_less [OF assms, of "(length rows + C - 1) div C" "length rows"]
    by simp
  then show ?thesis
    by (subst numbered_slices) simp
qed

lemma writeSheet_bytes:
  "writeSheet E b sched headers rows =
     Returns (sheetHeader
              @ (if length headers > 0 then buildRowXML 1 headers else [])
              @ concat (map (\<lambda>(rowNum, row). buildRowXML rowNum (map (sprintf_v (fmt_num E)) row))
                          (enumerate (if length headers > 0 then 2 else 1) rows))
              @ sheetFooter,
              None)"
proof (cases "Mode b = ModeSync")
  case True
  then show ?thesis
    by (simp add: writeSheet_def Let_def foldl_rows numeral_2_eq_2)
next
  case False
  let ?C = "nat (if ChunkSize b \<le> 0 then 10000 else ChunkSize b)"
  let ?s = "if length headers > 0 then 2 else (1::nat)"
  let ?fmt = "\<lambda>row. map (sprintf_v (fmt_num E)) row"
  let ?g = "\<lambda>k row. buildRowXML k (?fmt row)"
  let ?n = "(length rows + ?C - 1) div ?C"
  let ?sl = "\<lambda>i. slice rows (i * ?C) (min ((i + 1) * ?C) (length rows))"
  let ?mk = "\<lambda>idx chunk. \<lparr>XIndex = idx,
       XML = concat (map (\<lambda>(i, row). ?g (?s + idx * ?C + i) row) (enumerate 0 chunk))\<rparr>"
  have C: "0 < ?C" by (rule effective_chunk_size)
  have chunks: "splitIntoChunks rows ?C = Some (map ?sl [0..<?n])"
    by (rule splitIntoChunks_eq [OF C])
  have pc: "(\<lambda>(idx, chunk). processChunkXML E idx chunk (?s + idx * ?C)) = (\<lambda>(i, x). Inr (?mk i x))"
    by (simp add: processChunkXML_def fun_eq_iff)
  obtain arrived where
    d: "deliver (nat (if Workers b \<le> 0 then 4 else Workers b))
          (arrival_order sched
             (map (\<lambda>(idx, chunk). processChunkXML E idx chunk (?s + idx * ?C))
                (enumerate 0 (map ?sl [0..<?n]))))
          ([], []) = Some (arrived, [])"
    and c: "collect XIndex arrived (replicate (length (map ?sl [0..<?n])) \<lparr>XIndex = 0, XML = []\<rparr>)
          = Some (map (\<lambda>(i, x). ?mk i x) (enumerate 0 (map ?sl [0..<?n])))"
    unfolding pc
    using chunks_collected [of XIndex ?mk _ sched "map ?sl [0..<?n]"] by fastforce
  have xml: "concat (map XML (map (\<lambda>(i, x). ?mk i x) (enumerate 0 (map ?sl [0..<?n]))))
        = concat (map (\<lambda>(k, row). ?g k row) (enumerate ?s rows))"
  proof -
    have "map XML (map (\<lambda>(i, x). ?mk i x) (enumerate 0 (map ?sl [0..<?n])))
        = map (\<lambda>idx. concat (map (\<lambda>(i, row). ?g (?s + idx * ?C + i) row) (enumerate 0 (?sl idx)))) [0..<?n]"
      by (simp add: enumerate_map_upt comp_def)
    then show ?thesis
      using numbered_chunks [OF C, of ?g ?s rows] by simp
  qed
  show ?thesis
  proof (cases "length headers > 0")
    case True
    then show ?thesis
      using False chunks d c xml
      by (simp add: writeSheet_def Let_def foldl_append_concat del: upt_Suc)
  next
    case h: False
    then show ?thesis
      using False chunks d c xml
      by (simp add: writeSheet_def Let_def foldl_append_concat del: upt_Suc)
  qed
qed

section \<open>The part count\<close>

lemma wrap_id: "- M \<le> x \<Longrightarrow> x < M \<Longrightarrow> (x + M) mod (2 * M) - M = (x::int)"
  by simp

lemma two_64: "(2::int) ^ 64 = 2 * 2 ^ 63"
  by simp

lemma wrap64_id: "- (2 ^ 63) \<le> x \<Longrightarrow> x < 2 ^ 63 \<Longrightarrow> wrap64 x = x"
  unfolding wrap64_def two_64 by (rule wrap_id)

lemma wrap_pred:
  "(((a + M) mod K - M) - 1 + M) mod K - M = (a - 1 + M) mod K - (M::int)"
proof -
  have "(((a + M) mod K - M) - 1 + M) = ((a + M) mod K - 1)"
    by simp
  moreover have "((a + M) mod K - 1) mod K = (a + M - 1) mod K"
    by (rule mod_diff_left_eq)
  moreover have "a + M - 1 = a - 1 + M"
    by simp
  ultimately show ?thesis
    by simp
qed

lemma wrap64_pred: "wrap64 (wrap64 a - 1) = wrap64 (a - 1)"
  unfolding wrap64_def by (rule wrap_pred)

lemma go_quot_nonneg: "0 \<le> a \<Longrightarrow> 0 < b \<Longrightarrow> go_quot a b = a div b"
  by (simp add: go_quot_def)

lemma numParts_no_overflow:
  assumes C: "0 < C" and fits: "int N + C - 1 < 2 ^ 63"
  shows "go_quot (wrap64 (wrap64 (int N + C) - 1)) C = int ((N + nat C - 1) div nat C)"
proof -
  have nonneg: "0 \<le> int N + C - 1"
    using C by simp
  have "- (2 ^ 63) \<le> (0::int)"
    by simp
  with nonneg have lo: "- (2 ^ 63) \<le> int N + C - 1"
    by (rule order_trans [rotated])
  have w: "wrap64 (wrap64 (int N + C) - 1) = int N + C - 1"
    unfolding wrap64_pred using lo fits by (rule wrap64_id)
  have i: "int N + C - 1 = int (N + nat C - 1)"
    using C by auto
  have "go_quot (int N + C - 1) C = (int N + C - 1) div C"
    using nonneg C by (rule go_quot_nonneg)
  also have "\<dots> = int (N + nat C - 1) div int (nat C)"
    using C i by simp
  also have "\<dots> = int ((N + nat C - 1) div nat C)"
    by (simp add: zdiv_int)
  finally show ?thesis
    using w by simp
qed

lemma numParts_overflow:
  "go_quot (wrap64 (wrap64 (2 + 9223372036854775807) - 1)) 9223372036854775807 = - 1"
proof -
  have w1: "wrap64 (2 + 9223372036854775807) = - 9223372036854775807"
    by (simp add: wrap64_def)
  have w2: "wrap64 (- 9223372036854775807 - 1) = - 9223372036854775808"
    by (simp add: wrap64_def)
  have q: "go_quot (- 9223372036854775808) 9223372036854775807 = - 1"
    by (simp add: go_quot_def)
  show ?thesis
    by (simp only: w1 w2 q)
qed

section \<open>The partitioner: parts, names and order\<close>

lemma partCount_start: "0 < C \<Longrightarrow> i < partCount N C \<Longrightarrow> i * C \<le> (N::nat)"
  using ceil_div_less [of C i N] by (auto simp: partCount_def split: if_splits)




lemma part_end:
  "(if i * C + C > length rows then length rows else i * C + C) = min ((i + 1) * C) (length rows)"
  by (simp add: min_def add.commute)


lemma dispatchParts_valid:
  assumes starts: "\<forall>i \<in> set idxs. i * C \<le> length rows"
  shows "dispatchParts rows C idxs
     = Some (map (\<lambda>i. (i, slice rows (i * C) (min ((i + 1) * C) (length rows)))) idxs)"
  using starts
proof (induction idxs)
  case Nil
  then show ?case by simp
next
  case (Cons i idxs)
  have i: "i * C \<le> length rows" using Cons.prems by simp
  have le: "\<not> i * C > min ((i + 1) * C) (length rows)"
    using i by (simp add: min_def)
  have "dispatchParts rows C (i # idxs)
      = (case dispatchParts rows C idxs of None \<Rightarrow> None
         | Some tasks \<Rightarrow> Some ((i, slice rows (i * C) (min ((i + 1) * C) (length rows))) # tasks))"
    using le by (simp only: dispatchParts.simps Let_def part_end if_False)
  then show ?case
    using Cons.IH Cons.prems by simp
qed

lemma deliver_result:
  "deliver cap xs (rs, es) =
     (if filter isl xs = [] \<or> length es + length (filter isl xs) \<le> cap
      then Some (rs @ map projr (filter (\<lambda>x. \<not> isl x) xs), es @ map projl (filter isl xs))
      else None)"
proof (induction xs arbitrary: rs es)
  case Nil
  then show ?case by simp
next
  case (Cons x xs)
  show ?case
  proof (cases x)
    case (Inl e)
    then show ?thesis using Cons by auto
  next
    case (Inr r)
    then show ?thesis using Cons by simp
  qed
qed





lemma executeParallel_unsupported:
  assumes fmt: "SZFormat s \<noteq> FormatCSV" "SZFormat s \<noteq> FormatXLSX" and C: "0 < C"
  shows "executeParallel E s sched zw headers rows C (int (partCount (length rows) C))
     = (if partCount (length rows) C \<le> nat (if SZWorkers s \<le> 0 then 4 else SZWorkers s)
        then Returns (zw, Inl (PartError (hd (arrival_order sched [0..<partCount (length rows) C]) + 1)
                                 (UnsupportedFormat (SZFormat s))))
        else Hangs)"
proof -
  let ?P = "partCount (length rows) C"
  let ?W = "nat (if SZWorkers s \<le> 0 then 4 else SZWorkers s)"
  let ?sl = "\<lambda>i. slice rows (i * C) (min ((i + 1) * C) (length rows))"
  let ?err = "\<lambda>i. PartError (i + 1) (UnsupportedFormat (SZFormat s))"
  have P: "0 < ?P"
    using C ceil_div_less [of C 0 "length rows"] by (simp add: partCount_def)
  have starts: "\<forall>i \<in> set [0..<?P]. i * C \<le> length rows"
    using partCount_start [OF C] by simp
  have tasks: "dispatchParts rows C [0..<?P] = Some (map (\<lambda>i. (i, ?sl i)) [0..<?P])"
    by (rule dispatchParts_valid [OF starts])
  have outs: "map (\<lambda>(idx, data).
                 case generatePartData E s headers data of
                   Inl err \<Rightarrow> Inl (PartError (idx + 1) err)
                 | Inr bytes \<Rightarrow>
                     Inr \<lparr>PartIndex = idx, Data = bytes,
                          RowCount = length data, Error = None\<rparr>)
              (map (\<lambda>i. (i, ?sl i)) [0..<?P])
            = map (\<lambda>i. Inl (?err i) :: error + PartResult) [0..<?P]"
    using fmt by (simp add: generatePartData_def)
  let ?arr = "arrival_order sched [0..<?P]"
  have len: "length ?arr = ?P"
    using arrival_order_mset [of sched "[0..<?P]"] by (metis length_upt mset_eq_length diff_zero)
  have ne: "?arr \<noteq> []"
    using len P by auto
  have del: "deliver ?W (arrival_order sched (map (\<lambda>i. Inl (?err i) :: error + PartResult) [0..<?P])) ([], [])
      = (if ?P \<le> ?W then Some ([], map ?err ?arr) else None)"
    using P len ne
    by (simp add: arrival_order_map deliver_result comp_def del: upt_Suc)
  have nonneg: "\<not> int ?P < 0"
    by simp
  show ?thesis
  proof (cases "?P \<le> ?W")
    case True
    have "executeParallel E s sched zw headers rows C (int ?P)
        = (case map ?err ?arr of err # _ \<Rightarrow> Returns (zw, Inl err)
            | [] \<Rightarrow> Hangs)"
      unfolding executeParallel_def Let_def
      using ne
      by (simp only: nonneg if_False nat_int tasks option.case outs del True if_True prod.case)
         (simp split: list.splits)
    then show ?thesis
      using True ne by (cases ?arr) simp_all
  next
    case False
    have "executeParallel E s sched zw headers rows C (int ?P) = Hangs"
      unfolding executeParallel_def Let_def
      by (simp only: nonneg if_False nat_int tasks option.case outs del False)
    then show ?thesis
      using False by simp
  qed
qed

lemma Execute_numParts:
  assumes C: "0 < C" and fits: "int (length rows) + C - 1 < 2 ^ 63"
  shows "(let numParts = go_quot (wrap64 (wrap64 (int (length rows) + C) - 1)) C
          in if numParts = 0 then 1 else numParts) = int (partCount (length rows) (nat C))"
proof -
  have nC: "0 < nat C" using C by simp
  have "(length rows + nat C - 1) div nat C = 0 \<longleftrightarrow> length rows = 0"
    using ceil_div_less [OF nC, of 0 "length rows"] by auto
  then show ?thesis
    unfolding Let_def numParts_no_overflow [OF C fits]
    by (simp add: partCount_def)
qed


lemma Execute_unsupported_parallel:
  assumes on: "Split s" "Zip s"
    and creatable: "can_create E (SZOutputPath s)"
    and fmt: "SZFormat s \<noteq> FormatCSV" "SZFormat s \<noteq> FormatXLSX"
    and mode: "SZMode s = ModeParallel \<or> SZMode s = ModeGlobalPool"
    and fits: "int (length rows) + (if SZChunkSize s \<le> 0 then 10000 else SZChunkSize s) - 1 < 2 ^ 63"
  shows "Execute E s sched headers rows =
     (let C = nat (if SZChunkSize s \<le> 0 then 10000 else SZChunkSize s);
          P = partCount (length rows) C;
          W = nat (if SZWorkers s \<le> 0 then 4 else SZWorkers s)
      in if P \<le> W
         then Returns (Some [], Inl (PartError (hd (arrival_order sched [0..<P]) + 1)
                                      (UnsupportedFormat (SZFormat s))))
         else Hangs)"
proof -
  let ?c = "if SZChunkSize s \<le> 0 then 10000 else SZChunkSize s"
  have c: "0 < ?c" by simp
  have nC: "0 < nat ?c" by simp
  note np = Execute_numParts [OF c fits, unfolded Let_def]
  have notsync: "SZMode s \<noteq> ModeSync"
    using mode by (auto simp: ModeSync_def ModeParallel_def ModeGlobalPool_def)
  show ?thesis
    unfolding Execute_def Let_def np
    using on creatable notsync mode
    by (simp add: executeParallel_unsupported [OF fmt nC])
qed

lemma parts_cover_rows:
  assumes "0 < C"
  shows "concat (map (\<lambda>i. slice rows (i * C) (min ((i + 1) * C) (length rows)))
                   [0..<partCount (length rows) C]) = rows"
proof (cases "rows = []")
  case True
  then show ?thesis
    by (simp add: partCount_def slice_def)
next
  case False
  then show ?thesis
    using concat_all_slices [OF assms, of rows] by (simp add: partCount_def)
qed

lemma split_250_by_100:
  "partCount 250 100 = 3
   \<and> map (getPartFilename
            \<lparr>Split = True, Zip = True, SZChunkSize = 100, SZFormat = FormatCSV,
             SZMode = ModeParallel, SZWorkers = 4, IncludeHeaders = True,
             SZOutputPath = ''out.zip''\<rparr>) [0..<3]
     = [''part_1.csv'', ''part_2.csv'', ''part_3.csv'']"
  by code_simp

text \<open>
  Claim C3. The claim holds whenever \<open>N + C - 1\<close> fits Go's \<^verbatim>\<open>int\<close> (lemma
  \<open>Execute_valid\<close>: \<open>\<lceil>N/C\<rceil>\<close> parts and one part for no rows, the parts are the consecutive
  slices of the rows, named \<^verbatim>\<open>part_1\<close> to \<^verbatim>\<open>part_<count>\<close> in that order in the archive,
  in every mode and for every schedule, and the result holds the path, the counts and the
  names). The code computes the part count as \<^verbatim>\<open>(totalRows + chunkSize - 1) / chunkSize\<close>;
  with two rows and the part size \<open>2\<^sup>6\<^sup>3 - 1\<close> the sum wraps around, the count is \<open>-1\<close>
  and the call panics on \<^verbatim>\<open>make\<close> with a negative size, in the synchronous and in the
  parallel mode, where the claim asks for one part.
\<close>

theorem partitioner_part_count_overflow:
  "Execute exampleLib
     \<lparr>Split = True, Zip = True, SZChunkSize = 9223372036854775807, SZFormat = FormatCSV,
      SZMode = ModeSync, SZWorkers = 4, IncludeHeaders = True, SZOutputPath = ''out.zip''\<rparr>
     sched [''h''] [ [Text ''a''], [Text ''b''] ] = Panics
   \<and> Execute exampleLib
     \<lparr>Split = True, Zip = True, SZChunkSize = 9223372036854775807, SZFormat = FormatCSV,
      SZMode = ModeParallel, SZWorkers = 4, IncludeHeaders = True, SZOutputPath = ''out.zip''\<rparr>
     sched [''h''] [ [Text ''a''], [Text ''b''] ] = Panics"
proof -
  have np: "go_quot (wrap64 (wrap64 9223372036854775809 - 1)) 9223372036854775807 = - 1"
    using numParts_overflow by simp
  show ?thesis
    unfolding Execute_def Let_def
    by (simp add: np executeSync_def executeParallel_def exampleLib_def ModeSync_def
        ModeParallel_def ModeGlobalPool_def)
qed

theorem partitioner_part_count_overflow_witness:
  "Execute exampleLib
     \<lparr>Split = True, Zip = True, SZChunkSize = 9223372036854775807, SZFormat = FormatCSV,
      SZMode = ModeSync, SZWorkers = 4, IncludeHeaders = True, SZOutputPath = ''out.zip''\<rparr>
     [] [''h''] [ [Text ''a''], [Text ''b''] ] = Panics"
  using partitioner_part_count_overflow [of "[]"] by blast

text \<open>
  Claim C6. \<^verbatim>\<open>errChan\<close> has room for \<^verbatim>\<open>workers\<close> errors and is read only after every
  task has finished. When more tasks fail than there are workers, a task waits forever on
  its send and the call never returns, for every schedule: here two parts of an unsupported
  format with one worker. (With at most \<^verbatim>\<open>workers\<close> failing parts the call returns the
  first error to arrive and writes no entry: lemma \<open>Execute_unsupported_parallel\<close>.)
\<close>

theorem parallel_errors_beyond_workers_hang:
  "Execute exampleLib
     \<lparr>Split = True, Zip = True, SZChunkSize = 1, SZFormat = ''pdf'',
      SZMode = ModeParallel, SZWorkers = 1, IncludeHeaders = True, SZOutputPath = ''out.zip''\<rparr>
     sched [''h''] [ [Text ''a''], [Text ''b''] ] = Hangs"
proof -
  let ?s = "\<lparr>Split = True, Zip = True, SZChunkSize = 1, SZFormat = ''pdf'',
      SZMode = ModeParallel, SZWorkers = 1, IncludeHeaders = True, SZOutputPath = ''out.zip''\<rparr>"
  have "Execute exampleLib ?s sched [''h''] [ [Text ''a''], [Text ''b''] ] =
     (let C = nat (if SZChunkSize ?s \<le> 0 then 10000 else SZChunkSize ?s);
          P = partCount (length [ [Text ''a''], [Text ''b''::nat cell] ]) C;
          W = nat (if SZWorkers ?s \<le> 0 then 4 else SZWorkers ?s)
      in if P \<le> W
         then Returns (Some [], Inl (PartError (hd (arrival_order sched [0..<P]) + 1)
                                      (UnsupportedFormat (SZFormat ?s))))
         else Hangs)"
    by (rule Execute_unsupported_parallel)
       (simp_all add: exampleLib_def FormatCSV_def FormatXLSX_def)
  then show ?thesis
    by (simp add: partCount_def)
qed

theorem parallel_errors_beyond_workers_hang_witness:
  "Execute exampleLib
     \<lparr>Split = True, Zip = True, SZChunkSize = 1, SZFormat = ''pdf'',
      SZMode = ModeParallel, SZWorkers = 1, IncludeHeaders = True, SZOutputPath = ''out.zip''\<rparr>
     [1, 0] [''h''] [ [Text ''a''], [Text ''b''] ] = Hangs"
  by (rule parallel_errors_beyond_workers_hang)

text \<open>
  On the same input the synchronous path returns the error, and so does the parallel path
  with two workers.
\<close>

lemma unsupported_format_sync_returns:
  "Execute exampleLib
     \<lparr>Split = True, Zip = True, SZChunkSize = 1, SZFormat = ''pdf'',
      SZMode = ModeSync, SZWorkers = 1, IncludeHeaders = True, SZOutputPath = ''out.zip''\<rparr>
     sched [''h''] [ [Text ''a''], [Text ''b''] ]
   = Returns (Some [], Inl (WritePartFailed 1 (UnsupportedFormat ''pdf'')))"
  by code_simp

lemma unsupported_format_parallel_two_workers:
  "Execute exampleLib
     \<lparr>Split = True, Zip = True, SZChunkSize = 1, SZFormat = ''pdf'',
      SZMode = ModeParallel, SZWorkers = 2, IncludeHeaders = True, SZOutputPath = ''out.zip''\<rparr>
     [1] [''h''] [ [Text ''a''], [Text ''b''] ]
   = Returns (Some [], Inl (PartError 2 (UnsupportedFormat ''pdf'')))"
  by code_simp

section \<open>The worksheet in every mode; absent cells\<close>

lemma enumerate_map_rows:
  "map (\<lambda>(k, cells). g k cells) (enumerate n (map f rows))
     = map (\<lambda>(k, row). g k (f row)) (enumerate n rows)"
  by (induction rows arbitrary: n) simp_all

text \<open>
  Claim C2. In every mode, for every schedule, chunk size and number of workers, the
  worksheet part is the frame around one row element per output row, numbered 1, 2, 3, \<dots>
  without a gap: the header row, when the headers are not empty, is row 1 and the data rows
  follow from row 2; with no headers the data rows start at row 1.
\<close>

theorem worksheet_rows_consecutive:
  "writeSheet E b sched headers rows =
     Returns (sheetHeader
              @ concat (map (\<lambda>(rowNum, cells). buildRowXML rowNum cells)
                          (enumerate 1
                             ((if length headers > 0 then [headers] else [])
                              @ map (\<lambda>row. map (sprintf_v (fmt_num E)) row) rows)))
              @ sheetFooter,
              None)"
proof (cases "length headers > 0")
  case True
  have "enumerate 1 ([headers] @ map (\<lambda>row. map (sprintf_v (fmt_num E)) row) rows)
      = (1, headers) # enumerate 2 (map (\<lambda>row. map (sprintf_v (fmt_num E)) row) rows)"
    by (simp add: numeral_2_eq_2)
  then show ?thesis
    using True by (simp only: writeSheet_bytes if_True enumerate_map_rows list.map prod.case
        concat.simps append_assoc)
next
  case False
  then show ?thesis
    by (simp only: writeSheet_bytes if_False enumerate_map_rows append_Nil)
qed

theorem worksheet_rows_consecutive_witness:
  \<open>writeSheet exampleLib
     \<lparr>Mode = ModeParallel, Format = FormatXLSX, Workers = 2, ChunkSize = 1,
      InputPath = [], OutputPath = ''out.xlsx''\<rparr>
     [1, 0] [''Name''] [ [Text ''Ann''], [Number 7] ]
   = Returns (sheetHeader
       @ ''    <row r="1"><c r="A1" t="inlineStr"><is><t>Name</t></is></c></row>\<newline>''
       @ ''    <row r="2"><c r="A2" t="inlineStr"><is><t>Ann</t></is></c></row>\<newline>''
       @ ''    <row r="3"><c r="A3" t="inlineStr"><is><t>7</t></is></c></row>\<newline>''
       @ sheetFooter, None)\<close>
  unfolding worksheet_rows_consecutive
  by code_simp


lemma sprintf_nil_as_text: "sprintf_v num (nil_as_text c) = sprintf_v num c"
  by (cases c) simp_all

lemma sprintf_comp_nil_as_text: "sprintf_v num \<circ> nil_as_text = sprintf_v num"
  by (rule ext) (simp add: sprintf_nil_as_text)

lemma map_sprintf_nil_as_text:
  "map (sprintf_v num) (map nil_as_text row) = map (sprintf_v num) row"
  by (simp add: sprintf_comp_nil_as_text)












section \<open>Defaults for non-positive settings\<close>













section \<open>The life cycle of the worker pool\<close>

lemma pool_inv_NewPool: "pool_inv (NewPool n cap)"
  by (simp add: pool_inv_def NewPool_def)

lemma pool_step_safe:
  assumes "pool_inv p"
  shows "pool_step x p \<noteq> Panics \<and> (\<forall>p'. pool_step x p = Returns p' \<longrightarrow> pool_inv p')"
proof (cases x)
  case CallStart
  then show ?thesis
    using assms by (auto simp: Start_def pool_inv_def)
next
  case (CallSubmit job)
  then show ?thesis
    using assms by (auto simp: Submit_def pool_inv_def split: list.splits if_splits)
next
  case CallShutdown
  then show ?thesis
    using assms by (auto simp: Shutdown_def pool_inv_def Let_def split: if_splits)
next
  case WorkerMove
  then show ?thesis
    using assms by (auto simp: workerStep_def pool_inv_def split: list.splits if_splits)
qed

lemma pool_run_safe:
  "pool_inv p \<Longrightarrow>
   pool_run ops p \<noteq> Panics \<and> (\<forall>p'. pool_run ops p = Returns p' \<longrightarrow> pool_inv p')"
proof (induction ops arbitrary: p)
  case Nil
  then show ?case by simp
next
  case (Cons x xs)
  show ?case
  proof (cases "pool_step x p")
    case (Returns q)
    then have "pool_inv q"
      using pool_step_safe [OF Cons.prems, of x] by simp
    then show ?thesis
      using Cons.IH [of q] Returns by simp
  next
    case Panics
    then show ?thesis
      using pool_step_safe [OF Cons.prems, of x] by simp
  next
    case Hangs
    then show ?thesis by simp
  qed
qed

lemma Start_twice:
  "\<exists>p1. Start p = Returns p1 \<and> Start p1 = Returns p1"
  by (simp add: Start_def)

lemma Start_spawns_once:
  assumes "pool_inv p" "Start p = Returns p1"
  shows "spawned p1 = nat (workers p1) \<and> workers p1 = workers p"
  using assms by (auto simp: Start_def pool_inv_def split: if_splits)

lemma Shutdown_twice:
  assumes "pool_inv p"
  shows "\<exists>p2. Shutdown p = Returns p2 \<and> Shutdown p2 = Returns p2
            \<and> (\<forall>job. Submit job p2 = Returns p2)"
  using assms by (auto simp: Shutdown_def Submit_def pool_inv_def Let_def)

text \<open>
  Claim C8. No sequence of calls of \<^verbatim>\<open>Start\<close>, \<^verbatim>\<open>Submit\<close> and \<^verbatim>\<open>Shutdown\<close> on a new pool,
  with the workers moving in between, panics: the queue is never closed twice and nothing is
  sent on the closed queue. In every state such a sequence reaches, \<^verbatim>\<open>Start\<close> leaves
  exactly \<^verbatim>\<open>workers\<close> goroutines started however often it has been called, and a second
  \<^verbatim>\<open>Start\<close> changes nothing; after \<^verbatim>\<open>Shutdown\<close> a second \<^verbatim>\<open>Shutdown\<close> and any
  \<^verbatim>\<open>Submit\<close> return with the state unchanged.
\<close>

theorem pool_lifecycle_safe:
  "pool_run ops (NewPool n cap) \<noteq> Panics
   \<and> (\<forall>p. pool_run ops (NewPool n cap) = Returns p \<longrightarrow>
          (\<exists>p1. Start p = Returns p1 \<and> Start p1 = Returns p1
                \<and> spawned p1 = nat (workers p1) \<and> workers p1 = (if n \<le> 0 then 1 else n))
        \<and> (\<exists>p2. Shutdown p = Returns p2 \<and> Shutdown p2 = Returns p2
                \<and> (\<forall>job. Submit job p2 = Returns p2)))"
proof -
  have w: "workers p = (if n \<le> 0 then 1 else n)"
    if "pool_run ops (q :: 'a Pool) = Returns p" "workers q = (if n \<le> 0 then 1 else n)" for p q and ops
    using that
  proof (induction ops arbitrary: q)
    case Nil
    then show ?case by simp
  next
    case (Cons x xs)
    obtain q' where q': "pool_step x q = Returns q'" and run: "pool_run xs q' = Returns p"
      using Cons.prems(1) by (auto split: outcome.splits)
    have "workers q' = workers q"
      using q'
      by (cases x)
        (auto simp: Start_def Submit_def Shutdown_def workerStep_def Let_def
          split: if_splits list.splits)
    then show ?case
      using Cons.IH [OF run] Cons.prems(2) by simp
  qed
  have safe: "pool_run ops (NewPool n cap :: 'a Pool) \<noteq> Panics"
    and inv: "\<And>p. pool_run ops (NewPool n cap :: 'a Pool) = Returns p \<Longrightarrow> pool_inv p"
    using pool_run_safe [OF pool_inv_NewPool, of ops n cap] by blast+
  show ?thesis
  proof (intro conjI allI impI)
    show "pool_run ops (NewPool n cap :: 'a Pool) \<noteq> Panics" by (rule safe)
  next
    fix p :: "'a Pool"
    assume run: "pool_run ops (NewPool n cap) = Returns p"
    have wp: "workers p = (if n \<le> 0 then 1 else n)"
      using w [OF run] by (simp add: NewPool_def)
    obtain p1 where s1: "Start p = Returns p1" and s2: "Start p1 = Returns p1"
      using Start_twice [of p] by blast
    then show "\<exists>p1. Start p = Returns p1 \<and> Start p1 = Returns p1
                \<and> spawned p1 = nat (workers p1) \<and> workers p1 = (if n \<le> 0 then 1 else n)"
      using Start_spawns_once [OF inv [OF run] s1] wp by auto
  next
    fix p :: "'a Pool"
    assume run: "pool_run ops (NewPool n cap) = Returns p"
    show "\<exists>p2. Shutdown p = Returns p2 \<and> Shutdown p2 = Returns p2
                \<and> (\<forall>job. Submit job p2 = Returns p2)"
      by (rule Shutdown_twice [OF inv [OF run]])
  qed
qed

theorem pool_lifecycle_safe_witness:
  "pool_run [CallStart, CallSubmit 1, CallStart, CallShutdown, CallShutdown, CallSubmit 2]
     (NewPool 2 1 :: nat Pool)
     = Returns \<lparr>workers = 2, queueSize = 1, jobQueue = [], closed = True, onceDone = True,
                 spawned = 2, running = 0, stopped = True, processed = [1]\<rparr>
   \<and> Shutdown \<lparr>workers = 2, queueSize = 1, jobQueue = [], closed = True, onceDone = True,
                 spawned = 2, running = 0, stopped = True, processed = [1::nat]\<rparr> \<noteq> Panics"
proof -
  let ?ops = "[CallStart, CallSubmit 1, CallStart, CallShutdown, CallShutdown, CallSubmit (2::nat)]"
  let ?P = "\<lparr>workers = 2, queueSize = 1, jobQueue = [], closed = True, onceDone = True,
                 spawned = 2, running = 0, stopped = True, processed = [1::nat]\<rparr>"
  have run: "pool_run ?ops (NewPool 2 1) = Returns ?P"
    by code_simp
  obtain p2 where "Shutdown ?P = Returns p2"
    using pool_lifecycle_safe [of ?ops 2 1] run by blast
  then show ?thesis
    using run by simp
qed

end
